theory Spec2Isabelle
  imports Main
begin

text \<open>
  The token scanners of \<open>dsl/scanners.go\<close>: \<open>ScanChars\<close>, \<open>ScanKeyword\<close> and
  \<open>ScanComment\<close>. Each \<open>Process\<close> reads two configuration ports, then turns every
  token of its input into a Hit or a Miss. Channels are modelled by what they deliver,
  panics by a value, loops by recursive functions.
\<close>

section \<open>Data model\<close>

text \<open>
  Modelled from the spec: the \<open>Token\<close> and \<open>File\<close> types are declared outside
  \<open>dsl/scanners.go\<close>. The spec gives a token a file (the shared source buffer), a
  position with \<open>0 \<le> position\<close>, a value and a type; the scanners index
  \<open>tok.File.Data\<close> byte by byte. Bytes are \<open>char\<close> (8 bits), Go strings are byte
  lists, and the position is a \<open>nat\<close>.
\<close>

record File =
  Data :: "char list"

record Token =
  File :: File
  Pos :: nat
  Value :: string
  Type :: string

text \<open>
  A run-time panic is a value. Every panic \<open>scanners.go\<close> can raise is an index out of
  range (of the buffer or of a configuration string).
\<close>

datatype panic = IndexOutOfRange

text \<open>What a scanner sends: a token on its \<open>Hit\<close> port or on its \<open>Miss\<close> port.\<close>

datatype emission = Hit Token | Miss Token

text \<open>
  What one run of \<open>Process\<close> leaves behind: the tokens sent, in order; the tokens still
  waiting on \<open>In\<close>; and the panic that ended the run, if one did. A configuration port is
  a \<open>string option\<close>: \<open>Some v\<close> when the port delivers \<open>v\<close>, \<open>None\<close> when it is
  closed before a value arrives. \<open>In\<close> is the list of tokens sent before it is closed.
\<close>

record result =
  emitted :: "emission list"
  unread :: "Token list"
  panicked :: "panic option"

definition returned :: "emission list \<Rightarrow> Token list \<Rightarrow> result" where
  "returned es ts = \<lparr>emitted = es, unread = ts, panicked = None\<rparr>"

section \<open>Library functions the scanners call\<close>

text \<open>
  \<open>bytes.Buffer.WriteRune\<close> on \<open>rune(b)\<close> for a byte \<open>b\<close>: the byte itself below
  \<open>0x80\<close>, the two-byte UTF-8 encoding of the code point \<open>b\<close> from \<open>0x80\<close> on.
\<close>

definition WriteRune :: "char \<Rightarrow> string" where
  "WriteRune r =
     (let n = (of_char r :: nat) in
      if n < 128 then [r]
      else [char_of (192 + n div 64), char_of (128 + n mod 64)])"

fun HasPrefix :: "string \<Rightarrow> string \<Rightarrow> bool" where
  "HasPrefix s [] = True"
| "HasPrefix [] (p # ps) = False"
| "HasPrefix (x # xs) (p # ps) = (x = p \<and> HasPrefix xs ps)"

fun Contains :: "string \<Rightarrow> string \<Rightarrow> bool" where
  "Contains [] sub = (sub = [])"
| "Contains (x # xs) sub = (HasPrefix (x # xs) sub \<or> Contains xs sub)"

text \<open>
  \<open>strings.ContainsRune(s, rune(b))\<close>: \<open>IndexRune\<close> looks for the byte when the rune is
  below \<open>0x80\<close>, and for the rune's UTF-8 encoding otherwise.
\<close>

definition ContainsRune :: "string \<Rightarrow> char \<Rightarrow> bool" where
  "ContainsRune s r =
     (if (of_char r :: nat) < 128 then r \<in> set s else Contains s (WriteRune r))"

text \<open>
  \<open>strings.ReplaceAll(s, old, new)\<close> for the three calls of \<open>matcher\<close>: \<open>old\<close> is a
  backslash followed by the letter \<open>e\<close>, \<open>new\<close> is the single character \<open>c\<close>.
  Occurrences are replaced from the left and do not overlap.
\<close>

fun ReplaceAll :: "string \<Rightarrow> char \<Rightarrow> char \<Rightarrow> string" where
  "ReplaceAll (x # y # zs) e c =
     (if x = CHR 0x5C \<and> y = e then c # ReplaceAll zs e c
      else x # ReplaceAll (y # zs) e c)"
| "ReplaceAll zs e c = zs"

text \<open>
  \<open>strings.ToUpper\<close> on ASCII text: Go maps \<open>a\<close>..\<open>z\<close> to \<open>A\<close>..\<open>Z\<close> and keeps every
  other byte. A string with a byte from \<open>0x80\<close> on goes through the Unicode tables
  instead, which can change its length and turn a character that is not a word character
  into one; \<open>ToUpper\<close> does not follow Go there. It is applied to the keyword and to a
  slice of the buffer of the keyword's length; a slice with a byte from \<open>0x80\<close> on
  differs from an ASCII keyword after upper-casing in Go as it does here. The model of
  \<open>ScanKeyword\<close> is therefore that of the code for ASCII keywords, on every buffer, and
  the theorems on \<open>ScanKeyword\<close> are stated for ASCII keywords.
\<close>

definition isASCII :: "string \<Rightarrow> bool" where
  "isASCII s = list_all (\<lambda>c. (of_char c :: nat) < 128) s"

definition upperByte :: "char \<Rightarrow> char" where
  "upperByte c =
     (let n = (of_char c :: nat) in if 97 \<le> n \<and> n \<le> 122 then char_of (n - 32) else c)"

definition ToUpper :: "string \<Rightarrow> string" where
  "ToUpper s = map upperByte s"

text \<open>
  The two regular expressions of \<open>ScanKeyword\<close>, matched unanchored. In Go's syntax
  \<open>\w\<close> is \<open>[0-9A-Za-z_]\<close> and \<open>\s\<close> is \<open>[\t\n\f\r ]\<close>; a byte from \<open>0x80\<close> on is
  in neither class.
\<close>

definition isWord :: "char \<Rightarrow> bool" where
  "isWord c =
     (let n = (of_char c :: nat) in
      (48 \<le> n \<and> n \<le> 57) \<or> (65 \<le> n \<and> n \<le> 90) \<or> (97 \<le> n \<and> n \<le> 122) \<or> n = 95)"

definition isSpace :: "char \<Rightarrow> bool" where
  "isSpace c =
     (let n = (of_char c :: nat) in n = 9 \<or> n = 10 \<or> n = 12 \<or> n = 13 \<or> n = 32)"

definition identReg :: "string \<Rightarrow> bool" where
  "identReg s = list_ex isWord s"

definition symbolReg :: "string \<Rightarrow> bool" where
  "symbolReg s = list_ex (\<lambda>c. \<not> isWord c \<and> \<not> isSpace c) s"

section \<open>ScanChars\<close>

definition expandEscapes :: "string \<Rightarrow> string" where
  "expandEscapes charset =
     ReplaceAll (ReplaceAll (ReplaceAll charset (CHR ''t'') (CHR 0x09)) (CHR ''r'') (CHR 0x0D))
       (CHR ''n'') (CHR 0x0A)"

text \<open>
  \<open>ScanChars.matcher\<close>. \<open>regexp_Compile\<close> stands for \<open>regexp.Compile\<close>: \<open>None\<close> when
  the pattern does not compile, \<open>Some reg\<close> with \<open>reg bs\<close> the value of \<open>reg.Match(bs)\<close>
  otherwise. \<open>set[0]\<close> panics on the empty string.
\<close>

definition ScanChars_matcher ::
    "(string \<Rightarrow> (string \<Rightarrow> bool) option) \<Rightarrow> string \<Rightarrow> panic + (char \<Rightarrow> bool)" where
  "ScanChars_matcher regexp_Compile charset =
     (if charset = [] then Inl IndexOutOfRange
      else if hd charset = CHR ''['' \<and> last charset = CHR '']'' then
        (case regexp_Compile charset of
           None \<Rightarrow> Inr (\<lambda>r. False)
         | Some reg \<Rightarrow> Inr (\<lambda>r. reg [r]))
      else Inr (\<lambda>r. ContainsRune (expandEscapes charset) r))"

text \<open>The inner loop of \<open>ScanChars.Process\<close>: \<open>for i := tok.Pos; i < dataLen; i++\<close>.\<close>

function ScanChars_loop :: "(char \<Rightarrow> bool) \<Rightarrow> char list \<Rightarrow> nat \<Rightarrow> string \<Rightarrow> string" where
  "ScanChars_loop matcher data i buf =
     (if i < length data then
        (let r = data ! i in
         if r = CHR 0x00 \<or> \<not> matcher r then buf
         else ScanChars_loop matcher data (i + 1) (buf @ WriteRune r))
      else buf)"
  by pat_completeness auto
termination
  by (relation "measure (\<lambda>(matcher, data, i, buf). length data - i)") auto

definition ScanChars_token :: "(char \<Rightarrow> bool) \<Rightarrow> string \<Rightarrow> Token \<Rightarrow> emission" where
  "ScanChars_token matcher tokenType tok =
     (let buf = ScanChars_loop matcher (Data (File tok)) (Pos tok) [];
          tok = tok\<lparr>Value := buf\<rparr>
      in if length buf > 0 then Hit (tok\<lparr>Type := tokenType\<rparr>) else Miss tok)"

definition ScanChars_Process ::
    "(string \<Rightarrow> (string \<Rightarrow> bool) option) \<Rightarrow> string option \<Rightarrow> string option \<Rightarrow> Token list
      \<Rightarrow> result" where
  "ScanChars_Process regexp_Compile setPort typePort inPort =
     (case setPort of
        None \<Rightarrow> returned [] inPort
      | Some charset \<Rightarrow>
          (case ScanChars_matcher regexp_Compile charset of
             Inl e \<Rightarrow> \<lparr>emitted = [], unread = inPort, panicked = Some e\<rparr>
           | Inr matcher \<Rightarrow>
               (case typePort of
                  None \<Rightarrow> returned [] inPort
                | Some tokenType \<Rightarrow>
                    returned (map (ScanChars_token matcher tokenType) inPort) [])))"

section \<open>ScanKeyword\<close>

definition isIdent :: "string \<Rightarrow> bool" where
  "isIdent word = identReg word"

definition shouldNotBeFollowedBy :: "string \<Rightarrow> string \<Rightarrow> bool" where
  "shouldNotBeFollowedBy word = (if \<not> isIdent word then symbolReg else identReg)"

definition ScanKeyword_token :: "string \<Rightarrow> string \<Rightarrow> Token \<Rightarrow> emission" where
  "ScanKeyword_token word tokenType tok =
     (let wordLen = length word;
          dataLen = length (Data (File tok))
      in if Pos tok + wordLen > dataLen then Miss tok
         else
           (let tok = tok\<lparr>Value := take wordLen (drop (Pos tok) (Data (File tok)))\<rparr>
            in if ToUpper (Value tok) = word then
                 (if Pos tok + wordLen < dataLen
                      \<and> shouldNotBeFollowedBy word [Data (File tok) ! (Pos tok + wordLen)]
                  then Miss tok
                  else Hit (tok\<lparr>Type := tokenType, Value := word\<rparr>))
               else Miss tok))"

definition ScanKeyword_Process :: "string option \<Rightarrow> string option \<Rightarrow> Token list \<Rightarrow> result" where
  "ScanKeyword_Process setPort typePort inPort =
     (case setPort of
        None \<Rightarrow> returned [] inPort
      | Some word \<Rightarrow>
          (let word = ToUpper word in
           case typePort of
             None \<Rightarrow> returned [] inPort
           | Some tokenType \<Rightarrow> returned (map (ScanKeyword_token word tokenType) inPort) []))"

section \<open>ScanComment\<close>

function ScanComment_loop :: "char list \<Rightarrow> nat \<Rightarrow> string \<Rightarrow> string" where
  "ScanComment_loop data i buf =
     (if i < length data then
        (let r = data ! i in
         if r = CHR 0x00 \<or> r = CHR 0x0A \<or> r = CHR 0x0D then buf
         else ScanComment_loop data (i + 1) (buf @ WriteRune r))
      else buf)"
  by pat_completeness auto
termination
  by (relation "measure (\<lambda>(data, i, buf). length data - i)") auto

text \<open>
  One pass of the token loop. \<open>tok.File.Data[tok.Pos]\<close> panics when the position is the
  length of the buffer (or beyond), \<open>prefix[0]\<close> when the prefix is empty.
\<close>

definition ScanComment_token :: "string \<Rightarrow> string \<Rightarrow> Token \<Rightarrow> panic + emission" where
  "ScanComment_token prefix tokenType tok =
     (if Pos tok \<ge> length (Data (File tok)) then Inl IndexOutOfRange
      else if prefix = [] then Inl IndexOutOfRange
      else if Data (File tok) ! Pos tok \<noteq> hd prefix then Inr (Miss tok)
      else Inr (Hit (tok\<lparr>Value := ScanComment_loop (Data (File tok)) (Pos tok) [],
                         Type := tokenType\<rparr>)))"

text \<open>\<open>for tok := range s.In\<close>: a panic ends the run with the later tokens unread.\<close>

fun ScanComment_range :: "string \<Rightarrow> string \<Rightarrow> Token list \<Rightarrow> result" where
  "ScanComment_range prefix tokenType [] = returned [] []"
| "ScanComment_range prefix tokenType (tok # toks) =
     (case ScanComment_token prefix tokenType tok of
        Inl e \<Rightarrow> \<lparr>emitted = [], unread = toks, panicked = Some e\<rparr>
      | Inr ev \<Rightarrow>
          (let r = ScanComment_range prefix tokenType toks
           in r\<lparr>emitted := ev # emitted r\<rparr>))"

definition ScanComment_Process :: "string option \<Rightarrow> string option \<Rightarrow> Token list \<Rightarrow> result" where
  "ScanComment_Process setPort typePort inPort =
     (case setPort of
        None \<Rightarrow> returned [] inPort
      | Some prefix \<Rightarrow>
          (case typePort of
             None \<Rightarrow> returned [] inPort
           | Some tokenType \<Rightarrow> ScanComment_range prefix tokenType inPort))"

text \<open>An empty token at position \<open>p\<close> of the buffer \<open>B\<close>.\<close>

definition emptyToken :: "char list \<Rightarrow> nat \<Rightarrow> Token" where
  "emptyToken B p = \<lparr>File = \<lparr>Data = B\<rparr>, Pos = p, Value = [], Type = []\<rparr>"

section \<open>Notions the properties are stated with\<close>

text \<open>
  Case-insensitive equality of two byte strings, by lower-casing both (the scanner
  upper-cases both; \<open>ToUpper_eq_iff\<close> below shows the two agree).
\<close>

definition lowerByte :: "char \<Rightarrow> char" where
  "lowerByte c =
     (let n = (of_char c :: nat) in if 65 \<le> n \<and> n \<le> 90 then char_of (n + 32) else c)"

definition EqualFold :: "string \<Rightarrow> string \<Rightarrow> bool" where
  "EqualFold a b = (map lowerByte a = map lowerByte b)"

text \<open>
  The boundary rule on the byte after a match: after a word-like keyword it must not be a
  word character, after an operator-like keyword it must not be a character that is
  neither a word character nor white space.
\<close>

definition boundaryOK :: "bool \<Rightarrow> char \<Rightarrow> bool" where
  "boundaryOK wordLike c = (if wordLike then \<not> isWord c else \<not> (\<not> isWord c \<and> \<not> isSpace c))"

text \<open>
  The match rule of claim C1 in the claim's words, with the class of the keyword
  (\<open>True\<close> for word-like) as a parameter: a Miss when fewer than \<open>length K\<close> bytes
  remain from the position; a Hit with the upper-cased keyword and the label when the
  bytes at the position equal \<open>K\<close> up to case and the byte after them, if there is
  one, passes the boundary rule of the class; a Miss otherwise.
\<close>

definition keywordRule :: "bool \<Rightarrow> string \<Rightarrow> string \<Rightarrow> Token \<Rightarrow> emission" where
  "keywordRule wordLike K label tok =
     (let B = Data (File tok); p = Pos tok; n = length K in
      if length B < p + n then Miss tok
      else if EqualFold (take n (drop p B)) K
              \<and> (p + n = length B \<or> boundaryOK wordLike (B ! (p + n)))
      then Hit (tok\<lparr>Type := label, Value := ToUpper K\<rparr>)
      else Miss (tok\<lparr>Value := take n (drop p B)\<rparr>))"

text \<open>
  What a sent token tells its receiver apart from the shared buffer: the port it came
  out of (\<open>True\<close> for Hit), its value and its type.
\<close>

fun verdict :: "emission \<Rightarrow> bool \<times> string \<times> string" where
  "verdict (Hit tok) = (True, Value tok, Type tok)"
| "verdict (Miss tok) = (False, Value tok, Type tok)"

section \<open>The loops, as functions of the bytes from the position on\<close>

declare ScanChars_loop.simps [simp del]
declare ScanComment_loop.simps [simp del]

lemma ScanChars_loop_takeWhile:
  "ScanChars_loop m data i buf =
     buf @ concat (map WriteRune (takeWhile (\<lambda>r. r \<noteq> CHR 0x00 \<and> m r) (drop i data)))"
proof (induction m data i buf rule: ScanChars_loop.induct)
  case (1 m data i buf)
  show ?case
  proof (cases "i < length data")
    case False
    then show ?thesis by (subst ScanChars_loop.simps) simp
  next
    case True
    then have d: "drop i data = data ! i # drop (Suc i) data"
      by (simp add: Cons_nth_drop_Suc)
    show ?thesis
    proof (cases "data ! i = CHR 0x00 \<or> \<not> m (data ! i)")
      case stop: True
      then show ?thesis using True by (subst ScanChars_loop.simps) (auto simp: d)
    next
      case go: False
      with True "1.IH" [OF True refl] have
        "ScanChars_loop m data (i + 1) (buf @ WriteRune (data ! i)) =
           (buf @ WriteRune (data ! i)) @
           concat (map WriteRune (takeWhile (\<lambda>r. r \<noteq> CHR 0x00 \<and> m r) (drop (i + 1) data)))"
        by simp
      with True go show ?thesis by (subst ScanChars_loop.simps) (simp add: d)
    qed
  qed
qed

lemma ScanComment_loop_takeWhile:
  "ScanComment_loop data i buf =
     buf @ concat (map WriteRune
       (takeWhile (\<lambda>r. r \<noteq> CHR 0x00 \<and> r \<noteq> CHR 0x0A \<and> r \<noteq> CHR 0x0D) (drop i data)))"
proof (induction data i buf rule: ScanComment_loop.induct)
  case (1 data i buf)
  show ?case
  proof (cases "i < length data")
    case False
    then show ?thesis by (subst ScanComment_loop.simps) simp
  next
    case True
    then have d: "drop i data = data ! i # drop (Suc i) data"
      by (simp add: Cons_nth_drop_Suc)
    show ?thesis
    proof (cases "data ! i = CHR 0x00 \<or> data ! i = CHR 0x0A \<or> data ! i = CHR 0x0D")
      case stop: True
      then show ?thesis using True by (subst ScanComment_loop.simps) (auto simp: d)
    next
      case go: False
      with True "1.IH" [OF True refl] have
        "ScanComment_loop data (i + 1) (buf @ WriteRune (data ! i)) =
           (buf @ WriteRune (data ! i)) @
           concat (map WriteRune
             (takeWhile (\<lambda>r. r \<noteq> CHR 0x00 \<and> r \<noteq> CHR 0x0A \<and> r \<noteq> CHR 0x0D) (drop (i + 1) data)))"
        by simp
      with True go show ?thesis by (subst ScanComment_loop.simps) (simp add: d)
    qed
  qed
qed

lemma WriteRune_not_Nil: "WriteRune r \<noteq> []"
  by (simp add: WriteRune_def Let_def)

lemma WriteRune_ascii: "(of_char r :: nat) < 128 \<Longrightarrow> WriteRune r = [r]"
  by (simp add: WriteRune_def)

lemma concat_WriteRune_Nil: "concat (map WriteRune xs) = [] \<longleftrightarrow> xs = []"
  by (cases xs) (simp_all add: WriteRune_not_Nil)

lemma concat_WriteRune_ascii:
  "list_all (\<lambda>c. (of_char c :: nat) < 128) xs \<Longrightarrow> concat (map WriteRune xs) = xs"
  by (induction xs) (simp_all add: WriteRune_ascii)

section \<open>Case folding\<close>

lemma of_char_upperByte:
  "(of_char (upperByte c) :: nat) =
     (if 97 \<le> (of_char c :: nat) \<and> (of_char c :: nat) \<le> 122 then of_char c - 32 else of_char c)"
proof -
  have "(of_char c :: nat) - 32 < 256"
    by (rule le_less_trans [OF diff_le_self nat_of_char_less_256])
  then show ?thesis by (simp add: upperByte_def Let_def)
qed

lemma of_char_lowerByte:
  "(of_char (lowerByte c) :: nat) =
     (if 65 \<le> (of_char c :: nat) \<and> (of_char c :: nat) \<le> 90 then of_char c + 32 else of_char c)"
  by (simp add: lowerByte_def Let_def)

lemma fold_case_nat:
  fixes a b :: nat
  shows "(if 97 \<le> a \<and> a \<le> 122 then a - 32 else a) = (if 97 \<le> b \<and> b \<le> 122 then b - 32 else b)
     \<longleftrightarrow> (if 65 \<le> a \<and> a \<le> 90 then a + 32 else a) = (if 65 \<le> b \<and> b \<le> 90 then b + 32 else b)"
  by (simp split: if_splits) arith

lemma upperByte_eq_iff: "upperByte x = upperByte y \<longleftrightarrow> lowerByte x = lowerByte y"
proof -
  have "upperByte x = upperByte y \<longleftrightarrow> (of_char (upperByte x) :: nat) = of_char (upperByte y)"
    by simp
  also have "\<dots> \<longleftrightarrow> (of_char (lowerByte x) :: nat) = of_char (lowerByte y)"
    unfolding of_char_upperByte of_char_lowerByte by (rule fold_case_nat)
  also have "\<dots> \<longleftrightarrow> lowerByte x = lowerByte y"
    by simp
  finally show ?thesis .
qed

lemma ToUpper_eq_iff: "ToUpper a = ToUpper b \<longleftrightarrow> EqualFold a b"
proof (induction a arbitrary: b)
  case Nil
  then show ?case by (auto simp: ToUpper_def EqualFold_def)
next
  case (Cons x a)
  then show ?case
    by (cases b) (auto simp: ToUpper_def EqualFold_def upperByte_eq_iff)
qed

lemma length_ToUpper: "length (ToUpper s) = length s"
  by (simp add: ToUpper_def)

lemma isWord_upperByte: "isWord (upperByte c) = isWord c"
  unfolding isWord_def Let_def of_char_upperByte by auto

lemma identReg_ToUpper: "identReg (ToUpper s) = list_ex isWord s"
  by (induction s) (simp_all add: identReg_def ToUpper_def isWord_upperByte)

section \<open>ScanKeyword: the match rule\<close>

text \<open>
  Claim C1, as amended. For an ASCII keyword \<open>K\<close>, a type label and every token of the
  input, at position \<open>p\<close> of its buffer \<open>B\<close>: when fewer than \<open>length K\<close> bytes
  remain from \<open>p\<close>, \<open>ScanKeyword\<close> sends the token on Miss. Otherwise, when the
  \<open>length K\<close> bytes at \<open>p\<close> equal \<open>K\<close> up to case and the byte after them, if there
  is one, passes the boundary rule, it sends the token on Hit with the upper-cased \<open>K\<close>
  as value and the label as type; the rule is that of a word-like keyword when \<open>K\<close>
  contains at least one word character, and that of an operator-like keyword when it
  contains none. In every other case it sends a Miss.
\<close>

theorem ScanKeyword_Process_outcome:
  assumes "isASCII K"
  shows "ScanKeyword_Process (Some K) (Some label) inPort =
           returned (map (keywordRule (list_ex isWord K) K label) inPort) []"
proof -
  have follow: "shouldNotBeFollowedBy (ToUpper K) [c] = (\<not> boundaryOK (list_ex isWord K) c)" for c
    by (simp add: shouldNotBeFollowedBy_def isIdent_def identReg_ToUpper boundaryOK_def)
       (simp add: identReg_def symbolReg_def)
  have "ScanKeyword_token (ToUpper K) label tok = keywordRule (list_ex isWord K) K label tok" for tok
    by (auto simp: ScanKeyword_token_def keywordRule_def Let_def length_ToUpper follow
        ToUpper_eq_iff)
  then have "ScanKeyword_token (ToUpper K) label = keywordRule (list_ex isWord K) K label"
    by (rule ext)
  then show ?thesis
    by (simp add: ScanKeyword_Process_def)
qed

text \<open>
  The theorem at a word-like and at an operator-like keyword. \<open>select\<close> is a Hit on
  \<open>SELECT  FROM\<close>, a Miss on \<open>SELECTOR x\<close> (the next byte \<open>O\<close> is a word
  character) and a Miss on the short buffer \<open>sel\<close>. \<open>=\<close> is a Hit before \<open>x\<close>, a
  Miss before a second \<open>=\<close> and a Hit at the end of the buffer.
\<close>

theorem ScanKeyword_Process_outcome_witness:
  "isASCII ''select'' \<and> isASCII ''='' \<and>
   ScanKeyword_Process (Some ''select'') (Some ''KW_SELECT'')
       [emptyToken ''SELECT  FROM'' 0, emptyToken ''SELECTOR x'' 0, emptyToken ''sel'' 0] =
     returned
       [Hit ((emptyToken ''SELECT  FROM'' 0)\<lparr>Value := ''SELECT'', Type := ''KW_SELECT''\<rparr>),
        Miss ((emptyToken ''SELECTOR x'' 0)\<lparr>Value := ''SELECT''\<rparr>),
        Miss (emptyToken ''sel'' 0)] [] \<and>
   ScanKeyword_Process (Some ''='') (Some ''EQ'')
       [emptyToken ''=x'' 0, emptyToken ''=='' 0, emptyToken ''a='' 1] =
     returned
       [Hit ((emptyToken ''=x'' 0)\<lparr>Value := ''='', Type := ''EQ''\<rparr>),
        Miss ((emptyToken ''=='' 0)\<lparr>Value := ''=''\<rparr>),
        Hit ((emptyToken ''a='' 1)\<lparr>Value := ''='', Type := ''EQ''\<rparr>)] []"
proof -
  have a1: "isASCII ''select''" and a2: "isASCII ''=''" by code_simp+
  have e1: "map (keywordRule (list_ex isWord ''select'') ''select'' ''KW_SELECT'')
              [emptyToken ''SELECT  FROM'' 0, emptyToken ''SELECTOR x'' 0, emptyToken ''sel'' 0] =
       [Hit ((emptyToken ''SELECT  FROM'' 0)\<lparr>Value := ''SELECT'', Type := ''KW_SELECT''\<rparr>),
        Miss ((emptyToken ''SELECTOR x'' 0)\<lparr>Value := ''SELECT''\<rparr>),
        Miss (emptyToken ''sel'' 0)]"
    by code_simp
  have e2: "map (keywordRule (list_ex isWord ''='') ''='' ''EQ'')
              [emptyToken ''=x'' 0, emptyToken ''=='' 0, emptyToken ''a='' 1] =
       [Hit ((emptyToken ''=x'' 0)\<lparr>Value := ''='', Type := ''EQ''\<rparr>),
        Miss ((emptyToken ''=='' 0)\<lparr>Value := ''=''\<rparr>),
        Hit ((emptyToken ''a='' 1)\<lparr>Value := ''='', Type := ''EQ''\<rparr>)]"
    by code_simp
  show ?thesis
    using a1 a2
      ScanKeyword_Process_outcome [OF a1, of "''KW_SELECT''"
        "[emptyToken ''SELECT  FROM'' 0, emptyToken ''SELECTOR x'' 0, emptyToken ''sel'' 0]"]
      ScanKeyword_Process_outcome [OF a2, of "''EQ''"
        "[emptyToken ''=x'' 0, emptyToken ''=='' 0, emptyToken ''a='' 1]"]
    unfolding e1 e2 by simp
qed

text \<open>
  Claim C1 as stated, with the class of the specification (word-like when the keyword
  consists solely of word characters), fails at the keyword \<open>+a\<close> on the buffer
  \<open>+ab\<close>: the keyword is operator-like by that class and the following \<open>b\<close> is a
  word character, so the rule gives a Hit with the value \<open>+A\<close>; \<open>ScanKeyword\<close> takes
  the keyword for word-like, rejects the \<open>b\<close> and sends a Miss.
\<close>

theorem ScanKeyword_Process_outcome_counterexample:
  "\<not> list_all isWord ''+a'' \<and>
   keywordRule (list_all isWord ''+a'') ''+a'' ''T'' (emptyToken ''+ab'' 0) =
     Hit ((emptyToken ''+ab'' 0)\<lparr>Value := ''+A'', Type := ''T''\<rparr>) \<and>
   ScanKeyword_Process (Some ''+a'') (Some ''T'') [emptyToken ''+ab'' 0] =
     returned [Miss ((emptyToken ''+ab'' 0)\<lparr>Value := ''+a''\<rparr>)] []"
  by code_simp

section \<open>ScanKeyword: how the keyword is classified\<close>

text \<open>
  Claim C5, as amended. For an ASCII keyword \<open>K\<close>, \<open>ScanKeyword\<close> classifies \<open>K\<close> as
  word-like exactly when \<open>K\<close> contains at least one word character (not: consists
  solely of word characters). The byte after a word-like keyword is rejected when it is a
  word character; the byte after any other keyword is rejected when it is neither a word
  character nor white space.
\<close>

theorem ScanKeyword_classification:
  assumes "isASCII K"
  shows "isIdent (ToUpper K) = list_ex isWord K \<and>
         shouldNotBeFollowedBy (ToUpper K) [c] =
           (if list_ex isWord K then isWord c else \<not> isWord c \<and> \<not> isSpace c)"
  by (simp add: isIdent_def shouldNotBeFollowedBy_def identReg_ToUpper)
     (simp add: identReg_def symbolReg_def)

text \<open>The theorem at the keyword \<open>a+\<close> and the following byte \<open>x\<close>.\<close>

theorem ScanKeyword_classification_witness:
  "isASCII ''a+'' \<and> isIdent (ToUpper ''a+'') \<and> shouldNotBeFollowedBy (ToUpper ''a+'') ''x''"
proof -
  have a: "isASCII ''a+''" by code_simp
  have w: "list_ex isWord ''a+''" by code_simp
  have x: "isWord (CHR ''x'')" by code_simp
  show ?thesis
    using a ScanKeyword_classification [OF a, of "CHR ''x''"] w x by simp
qed

text \<open>
  Claim C5 as stated fails at the keyword \<open>a+\<close>: it does not consist solely of word
  characters, yet it is classified as word-like, so that on the buffer \<open>a+=\<close> the
  following \<open>=\<close> is accepted and the token is a Hit (the operator rule would reject it).
\<close>

theorem ScanKeyword_classification_counterexample:
  "isIdent (ToUpper ''a+'') \<and> \<not> list_all isWord ''a+'' \<and>
   ScanKeyword_Process (Some ''a+'') (Some ''T'') [emptyToken ''a+='' 0] =
     returned [Hit ((emptyToken ''a+='' 0)\<lparr>Value := ''A+'', Type := ''T''\<rparr>)] []"
  by code_simp

section \<open>ScanChars: literal sets\<close>

lemma set_ReplaceAll: "set (ReplaceAll s e c) \<subseteq> insert c (set s)"
  by (induction s e c rule: ReplaceAll.induct) auto

lemma isASCII_ReplaceAll:
  "isASCII s \<Longrightarrow> (of_char c :: nat) < 128 \<Longrightarrow> isASCII (ReplaceAll s e c)"
  using set_ReplaceAll [of s e c] by (auto simp: isASCII_def list_all_iff)

lemma isASCII_expandEscapes: "isASCII s \<Longrightarrow> isASCII (expandEscapes s)"
  by (simp add: expandEscapes_def isASCII_ReplaceAll)

lemma HasPrefix_set: "HasPrefix s sub \<Longrightarrow> set sub \<subseteq> set s"
  by (induction s sub rule: HasPrefix.induct) auto

lemma Contains_set: "Contains s sub \<Longrightarrow> set sub \<subseteq> set s"
proof (induction s sub rule: Contains.induct)
  case (1 sub)
  then show ?case by simp
next
  case (2 x xs sub)
  from "2.prems" have "HasPrefix (x # xs) sub \<or> Contains xs sub" by simp
  then show ?case
  proof
    assume "HasPrefix (x # xs) sub"
    then show ?thesis by (rule HasPrefix_set)
  next
    assume "Contains xs sub"
    then have "set sub \<subseteq> set xs" by (rule "2.IH")
    then show ?thesis by auto
  qed
qed

lemma WriteRune_high:
  assumes "\<not> (of_char r :: nat) < 128"
  shows "\<exists>c \<in> set (WriteRune r). \<not> (of_char c :: nat) < 128"
proof -
  have "(of_char r :: nat) div 64 < 4"
    using nat_of_char_less_256 [of r] by (simp add: div_less_iff_less_mult del: nat_of_char_less_256)
  then have "(192 + (of_char r :: nat) div 64) mod 256 = 192 + of_char r div 64"
    by simp
  then have "\<not> (of_char (char_of (192 + (of_char r :: nat) div 64)) :: nat) < 128"
    by simp
  with assms show ?thesis
    by (simp add: WriteRune_def Let_def)
qed

text \<open>On an ASCII set, containing a rune is containing the byte.\<close>

lemma ContainsRune_ascii: "isASCII s \<Longrightarrow> ContainsRune s r \<longleftrightarrow> r \<in> set s"
proof (cases "(of_char r :: nat) < 128")
  case True
  then show ?thesis by (simp add: ContainsRune_def)
next
  case False
  assume a: "isASCII s"
  from False obtain c where c: "c \<in> set (WriteRune r)" "\<not> (of_char c :: nat) < 128"
    using WriteRune_high by blast
  have "\<not> Contains s (WriteRune r)"
  proof
    assume "Contains s (WriteRune r)"
    then have "c \<in> set s" using c(1) Contains_set by blast
    with a c(2) show False by (simp add: isASCII_def list_all_iff)
  qed
  moreover have "r \<notin> set s"
    using a False by (auto simp: isASCII_def list_all_iff)
  ultimately show ?thesis using False by (simp add: ContainsRune_def)
qed

lemma takeWhile_ascii_set:
  "isASCII s \<Longrightarrow>
     list_all (\<lambda>c. (of_char c :: nat) < 128) (takeWhile (\<lambda>c. c \<noteq> CHR 0x00 \<and> c \<in> set s) xs)"
  by (induction xs) (auto simp: isASCII_def list_all_iff)

lemma ScanChars_token_run:
  "ScanChars_token m label tok =
     (let run = takeWhile (\<lambda>c. c \<noteq> CHR 0x00 \<and> m c) (drop (Pos tok) (Data (File tok)))
      in if run \<noteq> [] then Hit (tok\<lparr>Value := concat (map WriteRune run), Type := label\<rparr>)
         else Miss (tok\<lparr>Value := []\<rparr>))"
  by (simp add: ScanChars_token_def ScanChars_loop_takeWhile Let_def concat_WriteRune_Nil
      del: concat_eq_Nil_conv)

text \<open>
  Claim C2, as amended. For a non-empty set string that is not bracket-delimited, with
  \<open>S\<close> its expansion (\<open>\t\<close>, \<open>\r\<close>, \<open>\n\<close> replaced), and a token at position \<open>p\<close>
  of the buffer \<open>B\<close>: let the run be the longest prefix of \<open>B[p:]\<close> made of non-zero
  bytes that \<open>S\<close> contains as runes (a byte below \<open>0x80\<close> when it occurs in \<open>S\<close>, a
  byte from \<open>0x80\<close> on when the UTF-8 encoding of that code point occurs in \<open>S\<close>).
  When the run is not empty \<open>ScanChars\<close> sends a Hit whose value is the run written rune
  by rune and whose type is the label; when it is empty it sends a Miss with the empty
  value.
\<close>

theorem ScanChars_Process_literal:
  assumes "charset \<noteq> []"
    and "\<not> (hd charset = CHR ''['' \<and> last charset = CHR '']'')"
  shows "ScanChars_Process regexp_Compile (Some charset) (Some label) [tok] =
     returned
       [let run = takeWhile (\<lambda>c. c \<noteq> CHR 0x00 \<and> ContainsRune (expandEscapes charset) c)
                    (drop (Pos tok) (Data (File tok)))
        in if run \<noteq> [] then Hit (tok\<lparr>Value := concat (map WriteRune run), Type := label\<rparr>)
           else Miss (tok\<lparr>Value := []\<rparr>)] []"
proof -
  have m: "ScanChars_matcher regexp_Compile charset =
      Inr (\<lambda>r. ContainsRune (expandEscapes charset) r)"
    using assms by (auto simp: ScanChars_matcher_def)
  show ?thesis
    by (simp add: ScanChars_Process_def m ScanChars_token_run Let_def)
qed

text \<open>
  The theorem at the set written space, backslash, \<open>t\<close> (space and tab), on a token
  that points at a space and a tab followed by \<open>x\<close>.
\<close>

theorem ScanChars_Process_literal_witness:
  "ScanChars_Process (\<lambda>pattern. None) (Some [CHR '' '', CHR 0x5C, CHR ''t'']) (Some ''WS'')
       [emptyToken [CHR ''a'', CHR '' '', CHR 0x09, CHR ''x''] 1] =
     returned
       [Hit ((emptyToken [CHR ''a'', CHR '' '', CHR 0x09, CHR ''x''] 1)
               \<lparr>Value := [CHR '' '', CHR 0x09], Type := ''WS''\<rparr>)] []"
proof -
  let ?S = "[CHR '' '', CHR 0x5C, CHR ''t'']"
  let ?tok = "emptyToken [CHR ''a'', CHR '' '', CHR 0x09, CHR ''x''] 1"
  have h: "?S \<noteq> []" "\<not> (hd ?S = CHR ''['' \<and> last ?S = CHR '']'')"
    by simp_all
  have e: "(let run = takeWhile (\<lambda>c. c \<noteq> CHR 0x00 \<and> ContainsRune (expandEscapes ?S) c)
                    (drop (Pos ?tok) (Data (File ?tok)))
        in if run \<noteq> [] then Hit (?tok\<lparr>Value := concat (map WriteRune run), Type := ''WS''\<rparr>)
           else Miss (?tok\<lparr>Value := []\<rparr>)) =
        Hit (?tok\<lparr>Value := [CHR '' '', CHR 0x09], Type := ''WS''\<rparr>)"
    by code_simp
  show ?thesis
    using ScanChars_Process_literal [OF h, of "\<lambda>pattern. None" "''WS''" ?tok]
    unfolding e .
qed

text \<open>
  Claim C2 as stated fails at two inputs. With the set \<open>a\<close>, zero byte and the buffer
  \<open>a\<close>, zero byte, \<open>a\<close>, every byte of the buffer is in the set, but the value is
  \<open>a\<close>: the scan stops at the zero byte. With the set and the buffer both the two bytes
  \<open>C3 A9\<close>, every byte of the buffer is in the set, but the token is a Miss: the byte
  \<open>C3\<close> is looked up as the rune \<open>U+00C3\<close>.
\<close>

theorem ScanChars_maximal_prefix_counterexample:
  "ScanChars_Process (\<lambda>pattern. None) (Some [CHR ''a'', CHR 0x00]) (Some ''T'')
       [emptyToken [CHR ''a'', CHR 0x00, CHR ''a''] 0] =
     returned
       [Hit ((emptyToken [CHR ''a'', CHR 0x00, CHR ''a''] 0)\<lparr>Value := ''a'', Type := ''T''\<rparr>)] []
   \<and> takeWhile (List.member (expandEscapes [CHR ''a'', CHR 0x00]))
         (drop 0 [CHR ''a'', CHR 0x00, CHR ''a''])
       = [CHR ''a'', CHR 0x00, CHR ''a'']
   \<and> ScanChars_Process (\<lambda>pattern. None) (Some [CHR 0xC3, CHR 0xA9]) (Some ''T'')
       [emptyToken [CHR 0xC3, CHR 0xA9] 0] =
     returned [Miss (emptyToken [CHR 0xC3, CHR 0xA9] 0)] []
   \<and> takeWhile (List.member (expandEscapes [CHR 0xC3, CHR 0xA9])) (drop 0 [CHR 0xC3, CHR 0xA9])
       = [CHR 0xC3, CHR 0xA9]"
  by code_simp

text \<open>
  For an ASCII set the run is the longest prefix of non-zero bytes that occur in the
  expanded set, and the value is the run itself.
\<close>

lemma ScanChars_Process_literal_ascii:
  assumes "charset \<noteq> []"
    and "\<not> (hd charset = CHR ''['' \<and> last charset = CHR '']'')"
    and "isASCII charset"
  shows "ScanChars_Process regexp_Compile (Some charset) (Some label) [tok] =
     returned
       [let run = takeWhile (\<lambda>c. c \<noteq> CHR 0x00 \<and> c \<in> set (expandEscapes charset))
                    (drop (Pos tok) (Data (File tok)))
        in if run \<noteq> [] then Hit (tok\<lparr>Value := run, Type := label\<rparr>)
           else Miss (tok\<lparr>Value := []\<rparr>)] []"
proof -
  let ?S = "expandEscapes charset"
  have S: "isASCII ?S" using assms(3) by (rule isASCII_expandEscapes)
  have m: "ScanChars_matcher regexp_Compile charset = Inr (\<lambda>r. ContainsRune ?S r)"
    using assms(1,2) by (auto simp: ScanChars_matcher_def)
  have p: "(\<lambda>c. c \<noteq> CHR 0x00 \<and> ContainsRune ?S c) = (\<lambda>c. c \<noteq> CHR 0x00 \<and> c \<in> set ?S)"
    using ContainsRune_ascii [OF S] by auto
  have v: "concat (map WriteRune (takeWhile (\<lambda>c. c \<noteq> CHR 0x00 \<and> c \<in> set ?S) xs)) =
      takeWhile (\<lambda>c. c \<noteq> CHR 0x00 \<and> c \<in> set ?S) xs" for xs
    by (rule concat_WriteRune_ascii [OF takeWhile_ascii_set [OF S]])
  show ?thesis
    by (simp add: ScanChars_Process_def m ScanChars_token_run p v Let_def)
qed

section \<open>ScanChars: a character class that does not compile\<close>

text \<open>
  Claim C8. For a set string that starts with \<open>[\<close>, ends with \<open>]\<close> and does not
  compile as a regular expression, \<open>ScanChars\<close> sends every token of its input on Miss
  (with the empty value), whatever its buffer and position, and returns without a panic.
\<close>

theorem ScanChars_bad_class_always_misses:
  assumes "charset \<noteq> []"
    and "hd charset = CHR ''[''" and "last charset = CHR '']''"
    and "regexp_Compile charset = None"
  shows "ScanChars_Process regexp_Compile (Some charset) (Some label) inPort =
     returned (map (\<lambda>tok. Miss (tok\<lparr>Value := []\<rparr>)) inPort) []"
proof -
  have m: "ScanChars_matcher regexp_Compile charset = Inr (\<lambda>r. False)"
    using assms by (simp add: ScanChars_matcher_def)
  have n: "takeWhile (\<lambda>c. c \<noteq> CHR 0x00 \<and> False) xs = []" for xs :: string
    by (cases xs) simp_all
  have t: "ScanChars_token (\<lambda>r. False) label = (\<lambda>tok. Miss (tok\<lparr>Value := []\<rparr>))"
    unfolding ScanChars_token_run n by (rule ext) simp
  show ?thesis
    by (simp add: ScanChars_Process_def m t)
qed

text \<open>
  The theorem at the class \<open>[z-a]\<close>, whose range is reversed, with a compiler that
  rejects it: three empty tokens, at the start, inside and at the end of the buffer, come
  out on Miss as they went in.
\<close>

theorem ScanChars_bad_class_always_misses_witness:
  "ScanChars_Process (\<lambda>pattern. None) (Some ''[z-a]'') (Some ''ID'')
       [emptyToken ''abc'' 0, emptyToken ''abc'' 2, emptyToken ''abc'' 3] =
     returned [Miss (emptyToken ''abc'' 0), Miss (emptyToken ''abc'' 2), Miss (emptyToken ''abc'' 3)] []"
proof -
  have h: "''[z-a]'' \<noteq> []" "hd ''[z-a]'' = CHR ''[''" "last ''[z-a]'' = CHR '']''"
    "(\<lambda>pattern::string. None :: (string \<Rightarrow> bool) option) ''[z-a]'' = None"
    by simp_all
  show ?thesis
    using ScanChars_bad_class_always_misses [of "''[z-a]''" "\<lambda>pattern. None", OF h]
    by (simp add: emptyToken_def)
qed

section \<open>ScanComment\<close>

lemma ScanComment_token_run:
  "ScanComment_token prefix label tok =
     (if Pos tok \<ge> length (Data (File tok)) then Inl IndexOutOfRange
      else if prefix = [] then Inl IndexOutOfRange
      else if Data (File tok) ! Pos tok \<noteq> hd prefix then Inr (Miss tok)
      else Inr (Hit (tok\<lparr>Value := concat (map WriteRune
                     (takeWhile (\<lambda>c. c \<noteq> CHR 0x00 \<and> c \<noteq> CHR 0x0A \<and> c \<noteq> CHR 0x0D)
                        (drop (Pos tok) (Data (File tok))))),
                   Type := label\<rparr>)))"
  by (simp add: ScanComment_token_def ScanComment_loop_takeWhile)

text \<open>
  Claim C7, as amended. For a non-empty prefix with first character \<open>c\<close> and a token at
  a position \<open>p\<close> inside the buffer \<open>B\<close>: when \<open>B[p]\<close> is not \<open>c\<close>, \<open>ScanComment\<close>
  sends the token on Miss unchanged; when it is, \<open>ScanComment\<close> sends a Hit whose type
  is the label and whose value is the run from \<open>p\<close> up to the next line feed, carriage
  return or zero byte (or the end of the buffer), written rune by rune: a byte below
  \<open>0x80\<close> as itself, a byte from \<open>0x80\<close> on as the two bytes of the UTF-8 encoding of
  that code point. The Hit does not depend on the length of the run.
\<close>

theorem ScanComment_Process_outcome:
  assumes "prefix \<noteq> []" and "Pos tok < length (Data (File tok))"
  shows "ScanComment_Process (Some prefix) (Some label) [tok] =
     returned
       [if Data (File tok) ! Pos tok \<noteq> hd prefix then Miss tok
        else Hit (tok\<lparr>Value := concat (map WriteRune
                     (takeWhile (\<lambda>c. c \<noteq> CHR 0x00 \<and> c \<noteq> CHR 0x0A \<and> c \<noteq> CHR 0x0D)
                        (drop (Pos tok) (Data (File tok))))),
                   Type := label\<rparr>)] []"
  using assms
  by (simp add: ScanComment_Process_def ScanComment_token_def ScanComment_loop_takeWhile
      returned_def Let_def)

text \<open>
  The theorem on the buffer \<open># hi\<close>, line feed, \<open>w\<close> with the prefix \<open>#\<close>: a Hit
  with the value \<open># hi\<close>.
\<close>

theorem ScanComment_Process_outcome_witness:
  "ScanComment_Process (Some ''#'') (Some ''COMMENT'')
       [emptyToken [CHR ''#'', CHR '' '', CHR ''h'', CHR ''i'', CHR 0x0A, CHR ''w''] 0] =
     returned
       [Hit ((emptyToken [CHR ''#'', CHR '' '', CHR ''h'', CHR ''i'', CHR 0x0A, CHR ''w''] 0)
               \<lparr>Value := ''# hi'', Type := ''COMMENT''\<rparr>)] []"
proof -
  let ?tok = "emptyToken [CHR ''#'', CHR '' '', CHR ''h'', CHR ''i'', CHR 0x0A, CHR ''w''] 0"
  have h: "''#'' \<noteq> []" "Pos ?tok < length (Data (File ?tok))"
    by (simp_all add: emptyToken_def)
  have e: "(if Data (File ?tok) ! Pos ?tok \<noteq> hd ''#'' then Miss ?tok
        else Hit (?tok\<lparr>Value := concat (map WriteRune
                     (takeWhile (\<lambda>c. c \<noteq> CHR 0x00 \<and> c \<noteq> CHR 0x0A \<and> c \<noteq> CHR 0x0D)
                        (drop (Pos ?tok) (Data (File ?tok))))),
                   Type := ''COMMENT''\<rparr>)) =
        Hit (?tok\<lparr>Value := ''# hi'', Type := ''COMMENT''\<rparr>)"
    by code_simp
  show ?thesis
    using ScanComment_Process_outcome [OF h, of "''COMMENT''"]
    unfolding e .
qed

text \<open>
  Claim C7 as stated fails on the two-byte buffer \<open>#\<close>, \<open>E9\<close>: the run from the
  position is those two bytes, the value has three, \<open>#\<close>, \<open>C3\<close>, \<open>A9\<close>.
\<close>

theorem ScanComment_value_counterexample:
  "ScanComment_Process (Some ''#'') (Some ''COMMENT'') [emptyToken [CHR ''#'', CHR 0xE9] 0] =
     returned [Hit ((emptyToken [CHR ''#'', CHR 0xE9] 0)
                 \<lparr>Value := [CHR ''#'', CHR 0xC3, CHR 0xA9], Type := ''COMMENT''\<rparr>)] []"
  by code_simp

lemma ScanComment_token_first_byte:
  "prefix \<noteq> [] \<Longrightarrow>
     ScanComment_token prefix label tok = ScanComment_token [hd prefix] label tok"
  by (simp add: ScanComment_token_def)

lemma ScanComment_range_first_byte:
  "prefix \<noteq> [] \<Longrightarrow>
     ScanComment_range prefix label toks = ScanComment_range [hd prefix] label toks"
  by (induction toks) (simp_all add: ScanComment_token_first_byte [of prefix] split: sum.splits)

text \<open>
  Claim C10. \<open>ScanComment\<close> looks at the first byte of its prefix only: with a prefix of
  length at least 1 a run of \<open>Process\<close> sends the same tokens, with the same values and
  types, on the same ports (and ends the same way) as with the one-character prefix made
  of that first byte.
\<close>

theorem ScanComment_first_byte_only:
  assumes "prefix \<noteq> []"
  shows "ScanComment_Process (Some prefix) typePort inPort =
         ScanComment_Process (Some [hd prefix]) typePort inPort"
  using assms
  by (simp add: ScanComment_Process_def ScanComment_range_first_byte [of prefix]
      split: option.splits)

text \<open>
  The theorem at the prefix \<open>#!\<close>: a line that starts with \<open>#\<close> and a space is a
  Hit all the same, as with the prefix \<open>#\<close>.
\<close>

theorem ScanComment_first_byte_only_witness:
  "ScanComment_Process (Some ''#!'') (Some ''COMMENT'') [emptyToken ''# a'' 0, emptyToken ''#! a'' 0]
     = ScanComment_Process (Some ''#'') (Some ''COMMENT'') [emptyToken ''# a'' 0, emptyToken ''#! a'' 0]
   \<and> ScanComment_Process (Some ''#'') (Some ''COMMENT'') [emptyToken ''# a'' 0, emptyToken ''#! a'' 0]
     = returned [Hit ((emptyToken ''# a'' 0)\<lparr>Value := ''# a'', Type := ''COMMENT''\<rparr>),
                 Hit ((emptyToken ''#! a'' 0)\<lparr>Value := ''#! a'', Type := ''COMMENT''\<rparr>)] []"
proof -
  have h: "''#!'' \<noteq> []" by simp
  have e: "ScanComment_Process (Some ''#'') (Some ''COMMENT'')
             [emptyToken ''# a'' 0, emptyToken ''#! a'' 0]
     = returned [Hit ((emptyToken ''# a'' 0)\<lparr>Value := ''# a'', Type := ''COMMENT''\<rparr>),
                 Hit ((emptyToken ''#! a'' 0)\<lparr>Value := ''#! a'', Type := ''COMMENT''\<rparr>)] []"
    by code_simp
  show ?thesis
    using ScanComment_first_byte_only [OF h, of "Some ''COMMENT''"
        "[emptyToken ''# a'' 0, emptyToken ''#! a'' 0]"] e
    by simp
qed

section \<open>The zero byte as a sentinel\<close>

lemma takeWhile_stop: "\<not> P a \<Longrightarrow> takeWhile P (xs @ a # ys) = takeWhile P xs"
  by (induction xs) auto

lemma drop_upto_zero:
  assumes "p \<le> z" and "z < length B"
  shows "drop p B = drop p (take z B) @ B ! z # drop (Suc z) B"
proof -
  have "drop p B = take (z - p) (drop p B) @ drop (z - p) (drop p B)"
    by (rule append_take_drop_id [symmetric])
  also have "drop (z - p) (drop p B) = drop z B"
    using assms(1) by simp
  also have "drop z B = B ! z # drop (Suc z) B"
    using assms(2) by (simp add: Cons_nth_drop_Suc)
  also have "take (z - p) (drop p B) = drop p (take z B)"
    by (simp add: drop_take)
  finally show ?thesis .
qed

lemma takeWhile_cut:
  assumes "p \<le> z" and "z < length B" and "\<not> P (B ! z)"
  shows "takeWhile P (drop p B) = takeWhile P (drop p (take z B))"
  by (subst drop_upto_zero [OF assms(1,2)]) (simp add: takeWhile_stop assms(3))

text \<open>
  Claim C6, as amended. \<open>ScanChars\<close> (with any matcher, literal or compiled) and
  \<open>ScanComment\<close> bound their scan at the sentinel: a zero byte at index \<open>z\<close>, at or
  after the token's position, acts as the end of the buffer. The port, the value and the
  type of the token sent are those obtained on the buffer cut just before \<open>z\<close> (for
  \<open>ScanComment\<close> when the position is before \<open>z\<close>), so no byte at or beyond \<open>z\<close>
  enters them. \<open>ScanKeyword\<close> is not part of the statement: it has no sentinel check.
\<close>

theorem sentinel_ends_scan:
  assumes "Pos tok \<le> z" and "z < length (Data (File tok))"
    and "Data (File tok) ! z = CHR 0x00"
  shows "verdict (ScanChars_token matcher label (tok\<lparr>File := \<lparr>Data = take z (Data (File tok))\<rparr>\<rparr>))
           = verdict (ScanChars_token matcher label tok)
       \<and> (Pos tok = z \<or>
           map_sum id verdict
             (ScanComment_token prefix label (tok\<lparr>File := \<lparr>Data = take z (Data (File tok))\<rparr>\<rparr>))
           = map_sum id verdict (ScanComment_token prefix label tok))"
proof -
  let ?B = "Data (File tok)" and ?p = "Pos tok"
  have c: "takeWhile (\<lambda>c. c \<noteq> CHR 0x00 \<and> matcher c) (drop ?p ?B) =
           takeWhile (\<lambda>c. c \<noteq> CHR 0x00 \<and> matcher c) (drop ?p (take z ?B))"
    by (rule takeWhile_cut [OF assms(1,2)]) (simp add: assms(3))
  have k: "takeWhile (\<lambda>c. c \<noteq> CHR 0x00 \<and> c \<noteq> CHR 0x0A \<and> c \<noteq> CHR 0x0D) (drop ?p ?B) =
           takeWhile (\<lambda>c. c \<noteq> CHR 0x00 \<and> c \<noteq> CHR 0x0A \<and> c \<noteq> CHR 0x0D) (drop ?p (take z ?B))"
    by (rule takeWhile_cut [OF assms(1,2)]) (simp add: assms(3))
  have chars: "verdict (ScanChars_token matcher label (tok\<lparr>File := \<lparr>Data = take z ?B\<rparr>\<rparr>))
           = verdict (ScanChars_token matcher label tok)"
    by (simp add: ScanChars_token_run c Let_def)
  have comment: "map_sum id verdict
             (ScanComment_token prefix label (tok\<lparr>File := \<lparr>Data = take z ?B\<rparr>\<rparr>))
           = map_sum id verdict (ScanComment_token prefix label tok)" if "?p < z"
    using that assms(2) by (simp add: ScanComment_token_run k)
  from assms(1) chars comment show ?thesis by (cases "?p = z") auto
qed

text \<open>
  The theorem on four-byte buffers with a zero byte at index 2: the byte after the zero
  is in the set, and is not part of the value.
\<close>

theorem sentinel_ends_scan_witness:
  "verdict (ScanChars_token (\<lambda>c. c = CHR ''a'') ''A''
       (emptyToken [CHR ''a'', CHR ''a'', CHR 0x00, CHR ''a''] 0))
     = (True, ''aa'', ''A'') \<and>
   map_sum id verdict (ScanComment_token ''#'' ''C''
       (emptyToken [CHR ''#'', CHR ''a'', CHR 0x00, CHR ''a''] 0))
     = Inr (True, ''#a'', ''C'')"
proof -
  let ?t1 = "emptyToken [CHR ''a'', CHR ''a'', CHR 0x00, CHR ''a''] 0"
  let ?t2 = "emptyToken [CHR ''#'', CHR ''a'', CHR 0x00, CHR ''a''] 0"
  have h1: "Pos ?t1 \<le> 2" "2 < length (Data (File ?t1))" "Data (File ?t1) ! 2 = CHR 0x00"
    by (simp_all add: emptyToken_def)
  have h2: "Pos ?t2 \<le> 2" "2 < length (Data (File ?t2))" "Data (File ?t2) ! 2 = CHR 0x00"
    by (simp_all add: emptyToken_def)
  have n: "Pos ?t2 \<noteq> 2" by (simp add: emptyToken_def)
  have e1: "verdict (ScanChars_token (\<lambda>c. c = CHR ''a'') ''A''
               (?t1\<lparr>File := \<lparr>Data = take 2 (Data (File ?t1))\<rparr>\<rparr>)) = (True, ''aa'', ''A'')"
    by (simp add: emptyToken_def ScanChars_token_run WriteRune_def Let_def)
  have e2: "map_sum id verdict (ScanComment_token ''#'' ''C''
               (?t2\<lparr>File := \<lparr>Data = take 2 (Data (File ?t2))\<rparr>\<rparr>)) = Inr (True, ''#a'', ''C'')"
    by (simp add: emptyToken_def ScanComment_token_run WriteRune_def)
  from sentinel_ends_scan [where matcher = "\<lambda>c. c = CHR ''a''" and label = "''A''", OF h1] e1
  have r1: "verdict (ScanChars_token (\<lambda>c. c = CHR ''a'') ''A'' ?t1) = (True, ''aa'', ''A'')"
    by simp
  from sentinel_ends_scan [where prefix = "''#''" and label = "''C''", OF h2] n e2
  have r2: "map_sum id verdict (ScanComment_token ''#'' ''C'' ?t2) = Inr (True, ''#a'', ''C'')"
    by simp
  from r1 r2 show ?thesis by simp
qed

text \<open>
  Claim C6 as stated fails for \<open>ScanKeyword\<close>. On the buffer \<open>=\<close>, zero byte, the
  keyword \<open>=\<close> is a Miss: the zero byte is tested as the following character, and it is
  neither a word character nor white space; on the buffer \<open>=\<close> alone the same token is
  a Hit. On the buffer \<open>F\<close>, zero byte, \<open>R\<close> the keyword \<open>for\<close> is compared with all
  three bytes, and the Miss carries them as its value.
\<close>

theorem ScanKeyword_sentinel_counterexample:
  "ScanKeyword_Process (Some ''='') (Some ''EQ'') [emptyToken [CHR ''='', CHR 0x00] 0] =
     returned [Miss ((emptyToken [CHR ''='', CHR 0x00] 0)\<lparr>Value := ''=''\<rparr>)] []
   \<and> ScanKeyword_Process (Some ''='') (Some ''EQ'') [emptyToken ''='' 0] =
     returned [Hit ((emptyToken ''='' 0)\<lparr>Value := ''='', Type := ''EQ''\<rparr>)] []
   \<and> ScanKeyword_Process (Some ''for'') (Some ''FOR'') [emptyToken [CHR ''F'', CHR 0x00, CHR ''R''] 0] =
     returned [Miss ((emptyToken [CHR ''F'', CHR 0x00, CHR ''R''] 0)
                 \<lparr>Value := [CHR ''F'', CHR 0x00, CHR ''R'']\<rparr>)] []"
  by code_simp

section \<open>What a Miss carries\<close>

text \<open>
  Claim C3 holds for \<open>ScanChars\<close> and \<open>ScanComment\<close>: the token of a Miss is the
  incoming token, with the empty value.
\<close>

lemma ScanChars_Miss_token:
  "ScanChars_token matcher label tok = Miss tok' \<Longrightarrow> tok' = tok\<lparr>Value := []\<rparr>"
  by (simp add: ScanChars_token_run Let_def split: if_splits)

lemma ScanComment_Miss_token:
  "ScanComment_token prefix label tok = Inr (Miss tok') \<Longrightarrow> tok' = tok"
  by (simp add: ScanComment_token_def split: if_splits)

text \<open>
  Claim C3 fails for \<open>ScanKeyword\<close>, against the comment on the \<open>Miss\<close> port in the
  source (the unmodified empty token): the slice of the buffer is stored in the token
  before the comparison, and a Miss after that point carries it. With the keyword
  \<open>FOR\<close> on the buffer \<open>FOREACH\<close> the empty token comes out on Miss with the value
  \<open>FOR\<close>.
\<close>

theorem ScanKeyword_Miss_carries_slice:
  "ScanKeyword_Process (Some ''FOR'') (Some ''KW_FOR'') [emptyToken ''FOREACH'' 0] =
     returned [Miss ((emptyToken ''FOREACH'' 0)\<lparr>Value := ''FOR''\<rparr>)] []"
  by code_simp

section \<open>Panics\<close>

text \<open>
  Claim C4 fails: a token whose position is the length of the buffer makes
  \<open>ScanComment\<close> index the buffer out of range, where \<open>ScanKeyword\<close> and \<open>ScanChars\<close>
  compare the position with the length first.
\<close>

theorem ScanComment_panics_at_end_of_buffer:
  "ScanComment_Process (Some ''#'') (Some ''COMMENT'') [emptyToken ''ab'' 2] =
     \<lparr>emitted = [], unread = [], panicked = Some IndexOutOfRange\<rparr>"
  by code_simp

text \<open>The other two panics: the empty set string and the empty prefix.\<close>

lemma ScanChars_panics_on_empty_set:
  "panicked (ScanChars_Process regexp_Compile (Some []) typePort inPort) = Some IndexOutOfRange"
  by (simp add: ScanChars_Process_def ScanChars_matcher_def)

lemma ScanComment_panics_on_empty_prefix:
  "panicked (ScanComment_Process (Some []) (Some label) (tok # toks)) = Some IndexOutOfRange"
  by (simp add: ScanComment_Process_def ScanComment_token_def)

text \<open>Everywhere else no index is out of range.\<close>

lemma ScanKeyword_never_panics:
  "panicked (ScanKeyword_Process setPort typePort inPort) = None"
  by (simp add: ScanKeyword_Process_def returned_def Let_def split: option.splits)

lemma ScanChars_never_panics:
  "setPort \<noteq> Some [] \<Longrightarrow>
     panicked (ScanChars_Process regexp_Compile setPort typePort inPort) = None"
  by (auto simp: ScanChars_Process_def ScanChars_matcher_def returned_def
      split: option.splits sum.splits if_splits)

lemma ScanComment_range_no_panic:
  "prefix \<noteq> [] \<Longrightarrow> list_all (\<lambda>tok. Pos tok < length (Data (File tok))) toks \<Longrightarrow>
     panicked (ScanComment_range prefix label toks) = None"
  by (induction toks) (simp_all add: returned_def ScanComment_token_def Let_def)

section \<open>Closed configuration ports\<close>

text \<open>
  Claim C9 fails for \<open>ScanChars\<close>: \<open>matcher\<close> is called on the set before the type port
  is read, so when the set port delivers the empty string and the type port is closed,
  \<open>Process\<close> panics instead of returning. No token is read and none is sent.
\<close>

theorem ScanChars_panics_before_reading_Type:
  "ScanChars_Process regexp_Compile (Some []) None inPort =
     \<lparr>emitted = [], unread = inPort, panicked = Some IndexOutOfRange\<rparr>"
  by (simp add: ScanChars_Process_def ScanChars_matcher_def)

text \<open>
  In every other case a closed configuration port makes \<open>Process\<close> return at once, with
  nothing sent and the input untouched.
\<close>

lemma closed_configuration_returns:
  "ScanKeyword_Process None typePort inPort = returned [] inPort"
  "ScanKeyword_Process setPort None inPort = returned [] inPort"
  "ScanComment_Process None typePort inPort = returned [] inPort"
  "ScanComment_Process setPort None inPort = returned [] inPort"
  "ScanChars_Process regexp_Compile None typePort inPort = returned [] inPort"
  "charset \<noteq> [] \<Longrightarrow>
     ScanChars_Process regexp_Compile (Some charset) None inPort = returned [] inPort"
  by (auto simp: ScanKeyword_Process_def ScanComment_Process_def ScanChars_Process_def
      ScanChars_matcher_def Let_def split: option.splits)

end
